theory Spec2Isabelle
  imports Complex_Main "HOL-Library.Product_Lexorder" "HOL-Library.List_Lexorder"
    "HOL-Library.Char_ord"
begin

section \<open>The Wikipedia link-path finder: data model\<close>

text \<open>
  The development follows \<^verbatim>\<open>wiki_crawler.py\<close> (class \<^verbatim>\<open>WikiCrawler\<close>); the two
  versions of the file agree on every function modelled here.

  A page title is a Python \<^verbatim>\<open>str\<close>; one \<^typ>\<open>char\<close> stands for one character of it.
  Exceptions are values of \<open>error\<close>; a function that may raise returns \<open>error + 'a\<close>.
\<close>

type_synonym title = string

datatype error =
    ValueError string
  | RuntimeError string
  | WikipediaAPIError string
  | RequestException string
  | IndexError string

text \<open>
  The parameter dictionaries handed to \<^verbatim>\<open>_api_get\<close>: the title-resolution query
  (\<^verbatim>\<open>prop=info\<close>), the outgoing-links query (\<^verbatim>\<open>prop=links\<close>, with the optional
  \<^verbatim>\<open>plcontinue\<close> token) and the incoming-links query (\<^verbatim>\<open>prop=linkshere\<close>, with the
  optional \<^verbatim>\<open>lhcontinue\<close> token).
\<close>

datatype request =
    Query_info title
  | Query_links title "string option"
  | Query_linkshere title "string option"

text \<open>The part of the JSON answer that the crawler reads (\<^verbatim>\<open>formatversion=2\<close>).\<close>

record page =
  pg_title :: title
  pg_missing :: bool
  pg_links :: "(int \<times> title) list"
  pg_linkshere :: "title list"

record response =
  pages :: "page list"
  plcontinue :: "string option"
  lhcontinue :: "string option"

text \<open>
  The environment of the crawler. \<open>api_get\<close> is the remote end of \<^verbatim>\<open>_api_get\<close>: its
  answer (or the exception raised) may depend on every request sent before, so the
  encyclopedia may change while the crawler runs. \<open>set_order\<close> is the iteration order of
  a Python \<^verbatim>\<open>set\<close>, which the language leaves open. \<open>str_lower\<close>, \<open>is_space\<close> and
  \<open>seq_ratio\<close> are \<^verbatim>\<open>str.lower\<close>, \<^verbatim>\<open>str.isspace\<close> and
  \<^verbatim>\<open>difflib.SequenceMatcher(None, a, b).ratio()\<close> of the standard library.
\<close>

record world =
  api_get :: "request list \<Rightarrow> request \<Rightarrow> error + response"
  set_order :: "title list \<Rightarrow> title list"
  str_lower :: "string \<Rightarrow> string"
  is_space :: "char \<Rightarrow> bool"
  seq_ratio :: "string \<Rightarrow> string \<Rightarrow> real"

text \<open>
  A Python set is represented by the list of its elements in iteration order. \<open>set_iter\<close>
  turns the sequence of insertions into that list: the order the environment chooses when
  it is an enumeration of the same elements, insertion order otherwise.
\<close>

definition set_iter :: "world \<Rightarrow> title list \<Rightarrow> title list" where
  "set_iter W xs =
     (let ys = set_order W xs
      in if set ys = set xs \<and> distinct ys then ys else remdups xs)"

definition set_add :: "title list \<Rightarrow> title \<Rightarrow> title list" where
  "set_add xs x = (if x \<in> set xs then xs else xs @ [x])"

text \<open>\<^verbatim>\<open>networkx.DiGraph\<close>: nodes and directed edges; adding an edge adds its ends.\<close>

record digraph =
  nodes :: "title set"
  edges :: "(title \<times> title) set"

definition empty_graph :: digraph where
  "empty_graph = \<lparr>nodes = {}, edges = {}\<rparr>"

definition has_node :: "digraph \<Rightarrow> title \<Rightarrow> bool" where
  "has_node G n \<longleftrightarrow> n \<in> nodes G"

definition add_node :: "title \<Rightarrow> digraph \<Rightarrow> digraph" where
  "add_node n G = G\<lparr>nodes := insert n (nodes G)\<rparr>"

definition has_edge :: "digraph \<Rightarrow> title \<Rightarrow> title \<Rightarrow> bool" where
  "has_edge G u v \<longleftrightarrow> (u, v) \<in> edges G"

definition add_edge :: "title \<Rightarrow> title \<Rightarrow> digraph \<Rightarrow> digraph" where
  "add_edge u v G = G\<lparr>nodes := insert u (insert v (nodes G)), edges := insert (u, v) (edges G)\<rparr>"

text \<open>The metadata stored in \<^verbatim>\<open>decision_info\<close> for an edge.\<close>

record decision =
  di_method :: string
  di_depth :: nat
  di_note :: string
  di_score :: "real option"

text \<open>
  The fields of a \<^verbatim>\<open>WikiCrawler\<close> that the search layer uses. \<open>requests\<close> is the list of
  the requests sent through \<^verbatim>\<open>_api_get\<close> so far, oldest first: the crawler's effect on
  the network.
\<close>

record crawler =
  link_cache :: "title \<rightharpoonup> title list"
  linkshere_cache :: "title \<rightharpoonup> title list"
  title_cache :: "title \<rightharpoonup> title"
  crawl_graph :: digraph
  decision_info :: "(title \<times> title) \<rightharpoonup> decision"
  requests :: "request list"

definition new_crawler :: crawler where
  "new_crawler = \<lparr>link_cache = Map.empty, linkshere_cache = Map.empty,
     title_cache = Map.empty, crawl_graph = empty_graph, decision_info = Map.empty,
     requests = []\<rparr>"

section \<open>Title resolution and the cached link fetches\<close>

definition send :: "world \<Rightarrow> crawler \<Rightarrow> request \<Rightarrow> (error + response) \<times> crawler" where
  "send W c req = (api_get W (requests c) req, c\<lparr>requests := requests c @ [req]\<rparr>)"

definition resolve_title :: "world \<Rightarrow> crawler \<Rightarrow> title \<Rightarrow> (error + title option) \<times> crawler" where
  "resolve_title W c t =
     (case title_cache c t of
        Some n \<Rightarrow> (Inr (Some n), c)
      | None \<Rightarrow>
          (case send W c (Query_info t) of
             (Inl e, c1) \<Rightarrow> (Inl e, c1)
           | (Inr j, c1) \<Rightarrow>
               (case pages j of
                  [] \<Rightarrow> (Inr None, c1)
                | p # _ \<Rightarrow>
                    if pg_missing p then (Inr None, c1)
                    else let n = pg_title p
                         in (Inr (Some n),
                             c1\<lparr>title_cache := ((title_cache c1)(t \<mapsto> n))(n \<mapsto> n)\<rparr>))))"

text \<open>
  The \<^verbatim>\<open>while True\<close> loop of \<^verbatim>\<open>get_links\<close>: one request per round, the namespace-0
  links of the first page added to the set, and another round while the answer carries a
  non-empty \<^verbatim>\<open>plcontinue\<close> token. The server may hand out tokens for ever; then the loop
  does not return, which is the value \<open>None\<close>.
\<close>

partial_function (option) links_loop ::
  "world \<Rightarrow> title \<Rightarrow> string option \<Rightarrow> title list \<Rightarrow> crawler \<Rightarrow> ((error + title list) \<times> crawler) option"
where
  "links_loop W n tok links c =
     (case send W c (Query_links n tok) of
        (Inl e, c1) \<Rightarrow> Some (Inl e, c1)
      | (Inr j, c1) \<Rightarrow>
          (let links1 = (case pages j of
                           [] \<Rightarrow> links
                         | p # _ \<Rightarrow> fold (\<lambda>l acc. if fst l = 0 then set_add acc (snd l) else acc)
                                      (pg_links p) links)
           in case plcontinue j of
                None \<Rightarrow> Some (Inr links1, c1)
              | Some k \<Rightarrow> if k = [] then Some (Inr links1, c1)
                          else links_loop W n (Some k) links1 c1))"

partial_function (option) linkshere_loop ::
  "world \<Rightarrow> title \<Rightarrow> string option \<Rightarrow> title list \<Rightarrow> crawler \<Rightarrow> ((error + title list) \<times> crawler) option"
where
  "linkshere_loop W n tok incoming c =
     (case send W c (Query_linkshere n tok) of
        (Inl e, c1) \<Rightarrow> Some (Inl e, c1)
      | (Inr j, c1) \<Rightarrow>
          (let incoming1 = (case pages j of
                              [] \<Rightarrow> incoming
                            | p # _ \<Rightarrow> fold (\<lambda>l acc. set_add acc l) (pg_linkshere p) incoming)
           in case lhcontinue j of
                None \<Rightarrow> Some (Inr incoming1, c1)
              | Some k \<Rightarrow> if k = [] then Some (Inr incoming1, c1)
                          else linkshere_loop W n (Some k) incoming1 c1))"

declare links_loop.simps [code]
declare linkshere_loop.simps [code]

text \<open>
  \<^verbatim>\<open>get_links\<close> and \<^verbatim>\<open>get_linkshere\<close>. A title that does not resolve (or resolves to the
  empty string) gives the empty set and no cache entry; a cached set is returned as it is;
  otherwise the loop runs and its set is stored under the resolved title.
\<close>

definition get_links :: "world \<Rightarrow> crawler \<Rightarrow> title \<Rightarrow> ((error + title list) \<times> crawler) option" where
  "get_links W c t =
     (case resolve_title W c t of
        (Inl e, c1) \<Rightarrow> Some (Inl e, c1)
      | (Inr None, c1) \<Rightarrow> Some (Inr [], c1)
      | (Inr (Some n), c1) \<Rightarrow>
          if n = [] then Some (Inr [], c1)
          else (case link_cache c1 n of
                  Some ls \<Rightarrow> Some (Inr ls, c1)
                | None \<Rightarrow>
                    (case links_loop W n None [] c1 of
                       None \<Rightarrow> None
                     | Some (Inl e, c2) \<Rightarrow> Some (Inl e, c2)
                     | Some (Inr links, c2) \<Rightarrow>
                         (let s = set_iter W links
                          in Some (Inr s, c2\<lparr>link_cache := (link_cache c2)(n \<mapsto> s)\<rparr>)))))"

definition get_linkshere :: "world \<Rightarrow> crawler \<Rightarrow> title \<Rightarrow> ((error + title list) \<times> crawler) option" where
  "get_linkshere W c t =
     (case resolve_title W c t of
        (Inl e, c1) \<Rightarrow> Some (Inl e, c1)
      | (Inr None, c1) \<Rightarrow> Some (Inr [], c1)
      | (Inr (Some n), c1) \<Rightarrow>
          if n = [] then Some (Inr [], c1)
          else (case linkshere_cache c1 n of
                  Some ls \<Rightarrow> Some (Inr ls, c1)
                | None \<Rightarrow>
                    (case linkshere_loop W n None [] c1 of
                       None \<Rightarrow> None
                     | Some (Inl e, c2) \<Rightarrow> Some (Inl e, c2)
                     | Some (Inr incoming, c2) \<Rightarrow>
                         (let s = set_iter W incoming
                          in Some (Inr s, c2\<lparr>linkshere_cache := (linkshere_cache c2)(n \<mapsto> s)\<rparr>)))))"

section \<open>Breadth-first search\<close>

text \<open>
  A loop body either leaves the function (\<open>Done\<close>: a \<^verbatim>\<open>return\<close> or a \<^verbatim>\<open>raise\<close>)
  or hands the loop variables to the next iteration (\<open>Next\<close>). The result of a search is
  the exception raised or the value returned (\<open>None\<close> or a path), with the crawler as the
  call leaves it.
\<close>

datatype ('r, 's) flow = Done 'r | Next 's

type_synonym outcome = "(error + title list option) \<times> crawler"

text \<open>The first \<^verbatim>\<open>for n in neighbors\<close> loop: the fetched links enter the crawl graph.\<close>

definition record_links :: "title \<Rightarrow> title list \<Rightarrow> digraph \<Rightarrow> digraph" where
  "record_links current neighbors G =
     fold (\<lambda>n G. let G1 = (if \<not> has_node G n then add_node n G else G)
                 in if \<not> has_edge G1 current n then add_edge current n G1 else G1)
          neighbors G"

text \<open>A failed fetch is caught by the \<^verbatim>\<open>try\<close> around it and counts as the empty set.\<close>

definition caught :: "error + title list \<Rightarrow> title list" where
  "caught r = (case r of Inl e \<Rightarrow> [] | Inr ns \<Rightarrow> ns)"

type_synonym bfs_state = "(title \<times> title list \<times> nat) list \<times> title set \<times> nat \<times> crawler"

definition bfs_enqueue ::
  "title \<Rightarrow> title list \<Rightarrow> nat \<Rightarrow> title
    \<Rightarrow> (title \<times> title list \<times> nat) list \<times> title set \<times> crawler
    \<Rightarrow> (title \<times> title list \<times> nat) list \<times> title set \<times> crawler" where
  "bfs_enqueue current path depth n s =
     (case s of (q, visited, c) \<Rightarrow>
        if n \<notin> visited
        then (q @ [(n, path @ [n], depth + 1)], insert n visited,
              c\<lparr>decision_info := (decision_info c)((current, n) \<mapsto>
                   \<lparr>di_method = ''bfs'', di_depth = depth + 1,
                    di_note = ''enqueued from '' @ current, di_score = None\<rparr>)\<rparr>)
        else (q, visited, c))"

text \<open>
  One round of \<^verbatim>\<open>while q:\<close> in \<^verbatim>\<open>find_path_bfs\<close>, on the loop variables
  \<open>(q, visited, visited_count, self)\<close>.
\<close>

fun bfs_step :: "world \<Rightarrow> title \<Rightarrow> int \<Rightarrow> int \<Rightarrow> bfs_state \<Rightarrow> (outcome, bfs_state) flow option" where
  "bfs_step W target max_depth max_visited ([], visited, visited_count, c) =
     Some (Done (Inr None, c))"
| "bfs_step W target max_depth max_visited ((current, path, depth) # q, visited, visited_count, c) =
     (let visited_count = visited_count + 1
      in if int visited_count > max_visited
         then Some (Done (Inl (RuntimeError ''Visited cap exceeded; aborting''), c))
         else if int depth \<ge> max_depth
         then Some (Next (q, visited, visited_count, c))
         else (case get_links W c current of
                 None \<Rightarrow> None
               | Some (r, c1) \<Rightarrow>
                   (let neighbors = caught r;
                        c2 = c1\<lparr>crawl_graph := record_links current neighbors (crawl_graph c1)\<rparr>
                    in if target \<in> set neighbors
                       then Some (Done (Inr (Some (path @ [target])),
                              c2\<lparr>decision_info := (decision_info c2)((current, target) \<mapsto>
                                   \<lparr>di_method = ''bfs'', di_depth = depth + 1,
                                    di_note = ''direct neighbor - target found'',
                                    di_score = None\<rparr>)\<rparr>))
                       else (case fold (bfs_enqueue current path depth) neighbors (q, visited, c2) of
                               (q1, visited1, c3) \<Rightarrow>
                                 Some (Next (q1, visited1, visited_count, c3))))))"

lemma bfs_step_Next:
  assumes "bfs_step W target max_depth max_visited (q, visited, vc, c) = Some (Next (q', visited', vc', c'))"
  shows "vc' = vc + 1 \<and> int vc' \<le> max_visited"
proof (cases q)
  case Nil
  with assms show ?thesis by simp
next
  case (Cons e q0)
  obtain current path depth where e: "e = (current, path, depth)" by (cases e)
  from assms show ?thesis
    unfolding Cons e
    by (auto simp: Let_def split: if_splits option.splits prod.splits)
qed

function bfs_loop :: "world \<Rightarrow> title \<Rightarrow> int \<Rightarrow> int \<Rightarrow> bfs_state \<Rightarrow> outcome option" where
  "bfs_loop W target max_depth max_visited st =
     (case bfs_step W target max_depth max_visited st of
        None \<Rightarrow> None
      | Some (Done r) \<Rightarrow> Some r
      | Some (Next st') \<Rightarrow> bfs_loop W target max_depth max_visited st')"
  by pat_completeness auto
termination
proof (relation "measure (\<lambda>(W, target, max_depth, max_visited, (q, visited, vc, c)).
                   nat (max_visited + 1 - int vc))")
  show "wf (measure (\<lambda>(W, target, max_depth, max_visited, (q, visited, vc, c)).
                   nat (max_visited + 1 - int vc)))"
    by simp
next
  fix W target max_depth max_visited st x2 x2a
  assume "bfs_step W target max_depth max_visited st = Some x2" and "x2 = Next x2a"
  then have step: "bfs_step W target max_depth max_visited st = Some (Next x2a)" by simp
  obtain q visited vc c where st: "st = (q, visited, vc, c)" by (cases st)
  obtain q' visited' vc' c' where st': "x2a = (q', visited', vc', c')" by (cases x2a)
  from bfs_step_Next[OF step[unfolded st st']]
  show "((W, target, max_depth, max_visited, x2a), (W, target, max_depth, max_visited, st))
          \<in> measure (\<lambda>(W, target, max_depth, max_visited, (q, visited, vc, c)).
                   nat (max_visited + 1 - int vc))"
    by (simp add: st st')
qed

declare bfs_loop.simps [simp del]

definition find_path_bfs ::
  "world \<Rightarrow> crawler \<Rightarrow> title \<Rightarrow> title \<Rightarrow> int \<Rightarrow> int \<Rightarrow> outcome option" where
  "find_path_bfs W c start_title target_title max_depth max_visited =
     (case resolve_title W c start_title of
        (Inl e, c1) \<Rightarrow> Some (Inl e, c1)
      | (Inr None, c1) \<Rightarrow> Some (Inl (ValueError (''Start page not found: '' @ start_title)), c1)
      | (Inr (Some start), c1) \<Rightarrow>
          (case resolve_title W c1 target_title of
             (Inl e, c2) \<Rightarrow> Some (Inl e, c2)
           | (Inr None, c2) \<Rightarrow>
               Some (Inl (ValueError (''Target page not found: '' @ target_title)), c2)
           | (Inr (Some target), c2) \<Rightarrow>
               (let c3 = c2\<lparr>crawl_graph := add_node start empty_graph,
                            decision_info := Map.empty\<rparr>
                in if start = target then Some (Inr (Some [start]), c3)
                   else bfs_loop W target max_depth max_visited
                          ([(start, [start], 0)], {start}, 0, c3))))"

section \<open>Best-first search\<close>

text \<open>\<^verbatim>\<open>str.split()\<close>: the maximal runs of characters that are not whitespace.\<close>

fun split_ws :: "(char \<Rightarrow> bool) \<Rightarrow> string \<Rightarrow> string \<Rightarrow> string list" where
  "split_ws sp cur [] = (if cur = [] then [] else [cur])"
| "split_ws sp cur (x # xs) =
     (if sp x then (if cur = [] then [] else [cur]) @ split_ws sp [] xs
      else split_ws sp (cur @ [x]) xs)"

text \<open>\<^verbatim>\<open>tkn in cand_lower\<close> on strings: \<open>tkn\<close> occurs as a contiguous piece.\<close>

fun is_substring :: "string \<Rightarrow> string \<Rightarrow> bool" where
  "is_substring s [] \<longleftrightarrow> s = []"
| "is_substring s (y # ys) \<longleftrightarrow> take (length s) (y # ys) = s \<or> is_substring s ys"

text \<open>
  \<^verbatim>\<open>_title_score\<close>. Python floats are taken as real numbers: every quantity below is a
  sum of the library's ratio and a multiple of \<open>0.25\<close>.
\<close>

definition title_score :: "world \<Rightarrow> title \<Rightarrow> title \<Rightarrow> real" where
  "title_score W candidate_title target_title =
     (let ratio = seq_ratio W (str_lower W candidate_title) (str_lower W target_title);
          score = ratio;
          target_tokens = filter (\<lambda>t. length t > 2)
                            (split_ws (is_space W) [] (str_lower W target_title));
          cand_lower = str_lower W candidate_title;
          token_bonus = fold (\<lambda>tkn b. if is_substring tkn cand_lower then b + 0.25 else b)
                          target_tokens 0
      in score + token_bonus)"

text \<open>
  \<^verbatim>\<open>heapq\<close> of the standard library. An item is the tuple
  \<open>(-score, depth, uid, current, path)\<close>, ordered as Python orders tuples (the first
  component that differs decides). The model keeps the content of the heap as a list and
  lets \<open>heappop\<close> look for the least item, which is what \<^verbatim>\<open>heapq.heappop\<close> returns.
\<close>

type_synonym item = "real \<times> nat \<times> nat \<times> title \<times> title list"

definition heappush :: "item list \<Rightarrow> item \<Rightarrow> item list" where
  "heappush heap x = heap @ [x]"

definition heappop :: "item list \<Rightarrow> item \<times> item list" where
  "heappop heap = (let m = fold min (tl heap) (hd heap) in (m, remove1 m heap))"

text \<open>Decimal digits of a number, for the f-strings.\<close>

function str_nat :: "nat \<Rightarrow> string" where
  "str_nat n = (if n < 10 then [char_of (48 + n)] else str_nat (n div 10) @ [char_of (48 + n mod 10)])"
  by pat_completeness auto
termination
  by (relation "measure id") auto

declare str_nat.simps [simp del]

text \<open>\<^verbatim>\<open>xs[:k]\<close>: a negative \<open>k\<close> counts from the end.\<close>

definition slice_to :: "int \<Rightarrow> 'a list \<Rightarrow> 'a list" where
  "slice_to k xs = (if k \<ge> 0 then take (nat k) xs else take (nat (int (length xs) + k)) xs)"

text \<open>\<^verbatim>\<open>scored.sort(reverse=True, key=lambda x: x[0])\<close>: stable, highest score first.\<close>

definition sort_scored :: "(real \<times> title) list \<Rightarrow> (real \<times> title) list" where
  "sort_scored scored = sort_key (\<lambda>x. - fst x) scored"

type_synonym best_state = "item list \<times> title set \<times> nat \<times> nat \<times> crawler"

definition best_enqueue ::
  "title \<Rightarrow> title list \<Rightarrow> nat \<Rightarrow> nat \<Rightarrow> real \<times> title
    \<Rightarrow> item list \<times> title set \<times> nat \<times> crawler
    \<Rightarrow> item list \<times> title set \<times> nat \<times> crawler" where
  "best_enqueue current path depth top_len e s =
     (case e of (sc, n) \<Rightarrow> case s of (heap, visited, uid_counter, c) \<Rightarrow>
        if n \<notin> visited
        then (let uid_counter = uid_counter + 1
              in (heappush heap (- sc, depth + 1, uid_counter, n, path @ [n]),
                  insert n visited, uid_counter,
                  c\<lparr>decision_info := (decision_info c)((current, n) \<mapsto>
                       \<lparr>di_method = ''best'', di_depth = depth + 1,
                        di_note = ''enqueued by heuristic (top '' @ str_nat top_len @ '')'',
                        di_score = Some sc\<rparr>)\<rparr>))
        else (heap, visited, uid_counter, c))"

text \<open>The list \<^verbatim>\<open>scored\<close>: the neighbours not yet visited, each with its score.\<close>

definition score_unvisited :: "world \<Rightarrow> title \<Rightarrow> title set \<Rightarrow> title list \<Rightarrow> (real \<times> title) list" where
  "score_unvisited W target visited neighbors =
     map (\<lambda>n. (title_score W n target, n)) (filter (\<lambda>n. n \<notin> visited) neighbors)"

text \<open>
  One round of \<^verbatim>\<open>while heap:\<close> in \<^verbatim>\<open>find_path_best_first\<close>, on the loop variables
  \<open>(heap, visited, visited_count, uid_counter, self)\<close>.
\<close>

fun best_step ::
  "world \<Rightarrow> title \<Rightarrow> int \<Rightarrow> int \<Rightarrow> int \<Rightarrow> best_state \<Rightarrow> (outcome, best_state) flow option" where
  "best_step W target max_depth max_visited max_branch (heap, visited, visited_count, uid_counter, c) =
     (if heap = [] then Some (Done (Inr None, c))
      else case heappop heap of
        ((neg_score, depth, uid, current, path), heap) \<Rightarrow>
          (let visited_count = visited_count + 1
           in if int visited_count > max_visited
              then Some (Done (Inl (RuntimeError ''Visited cap exceeded; aborting''), c))
              else if int depth \<ge> max_depth
              then Some (Next (heap, visited, visited_count, uid_counter, c))
              else (case get_links W c current of
                      None \<Rightarrow> None
                    | Some (r, c1) \<Rightarrow>
                        (let neighbors = caught r;
                             c2 = c1\<lparr>crawl_graph := record_links current neighbors (crawl_graph c1)\<rparr>
                         in if target \<in> set neighbors
                            then Some (Done (Inr (Some (path @ [target])),
                                   c2\<lparr>decision_info := (decision_info c2)((current, target) \<mapsto>
                                        \<lparr>di_method = ''best'', di_depth = depth + 1,
                                         di_note = ''direct neighbor - target found'',
                                         di_score = None\<rparr>)\<rparr>))
                            else (let scored = score_unvisited W target visited neighbors
                                  in if scored = []
                                     then Some (Next (heap, visited, visited_count, uid_counter, c2))
                                     else (let top_neighbors = slice_to max_branch (sort_scored scored)
                                           in case fold (best_enqueue current path depth
                                                          (length top_neighbors))
                                                     top_neighbors (heap, visited, uid_counter, c2) of
                                                (heap1, visited1, uid1, c3) \<Rightarrow>
                                                  Some (Next (heap1, visited1, visited_count, uid1,
                                                              c3))))))))"

lemma best_step_Next:
  assumes "best_step W target max_depth max_visited max_branch (heap, visited, vc, uid, c)
             = Some (Next (heap', visited', vc', uid', c'))"
  shows "vc' = vc + 1 \<and> int vc' \<le> max_visited"
  using assms
  by (auto simp: Let_def split: if_splits option.splits prod.splits)

function best_loop :: "world \<Rightarrow> title \<Rightarrow> int \<Rightarrow> int \<Rightarrow> int \<Rightarrow> best_state \<Rightarrow> outcome option" where
  "best_loop W target max_depth max_visited max_branch st =
     (case best_step W target max_depth max_visited max_branch st of
        None \<Rightarrow> None
      | Some (Done r) \<Rightarrow> Some r
      | Some (Next st') \<Rightarrow> best_loop W target max_depth max_visited max_branch st')"
  by pat_completeness auto
termination
proof (relation "measure (\<lambda>(W, target, max_depth, max_visited, max_branch, (heap, visited, vc, uid, c)).
                   nat (max_visited + 1 - int vc))")
  show "wf (measure (\<lambda>(W, target, max_depth, max_visited, max_branch, (heap, visited, vc, uid, c)).
                   nat (max_visited + 1 - int vc)))"
    by simp
next
  fix W target max_depth max_visited max_branch st x2 x2a
  assume "best_step W target max_depth max_visited max_branch st = Some x2" and "x2 = Next x2a"
  then have step: "best_step W target max_depth max_visited max_branch st = Some (Next x2a)"
    by simp
  obtain heap visited vc uid c where st: "st = (heap, visited, vc, uid, c)" by (cases st)
  obtain heap' visited' vc' uid' c' where st': "x2a = (heap', visited', vc', uid', c')"
    by (cases x2a)
  from best_step_Next[OF step[unfolded st st']]
  show "((W, target, max_depth, max_visited, max_branch, x2a),
         (W, target, max_depth, max_visited, max_branch, st))
          \<in> measure (\<lambda>(W, target, max_depth, max_visited, max_branch, (heap, visited, vc, uid, c)).
                   nat (max_visited + 1 - int vc))"
    by (simp add: st st')
qed

declare best_loop.simps [simp del]

definition find_path_best_first ::
  "world \<Rightarrow> crawler \<Rightarrow> title \<Rightarrow> title \<Rightarrow> int \<Rightarrow> int \<Rightarrow> int \<Rightarrow> outcome option" where
  "find_path_best_first W c start_title target_title max_depth max_visited max_branch =
     (case resolve_title W c start_title of
        (Inl e, c1) \<Rightarrow> Some (Inl e, c1)
      | (Inr None, c1) \<Rightarrow> Some (Inl (ValueError (''Start page not found: '' @ start_title)), c1)
      | (Inr (Some start), c1) \<Rightarrow>
          (case resolve_title W c1 target_title of
             (Inl e, c2) \<Rightarrow> Some (Inl e, c2)
           | (Inr None, c2) \<Rightarrow>
               Some (Inl (ValueError (''Target page not found: '' @ target_title)), c2)
           | (Inr (Some target), c2) \<Rightarrow>
               (let c3 = c2\<lparr>crawl_graph := add_node start empty_graph,
                            decision_info := Map.empty\<rparr>
                in if start = target then Some (Inr (Some [start]), c3)
                   else (let uid_counter = 0;
                             start_score = title_score W start target;
                             heap = heappush [] (- start_score, 0, uid_counter, start, [start]);
                             uid_counter = uid_counter + 1
                         in best_loop W target max_depth max_visited max_branch
                              (heap, {start}, 0, uid_counter, c3)))))"

section \<open>Bidirectional search\<close>

text \<open>
  The parent dictionaries map a title to its parent or to \<^verbatim>\<open>None\<close> (the root);
  \<open>pget\<close> is \<^verbatim>\<open>dict.get\<close>, which gives \<^verbatim>\<open>None\<close> for a missing key as well.
\<close>

type_synonym parents = "title \<rightharpoonup> title option"

definition pget :: "parents \<Rightarrow> title \<Rightarrow> title option" where
  "pget m k = (case m k of None \<Rightarrow> None | Some v \<Rightarrow> v)"

text \<open>
  The two \<^verbatim>\<open>while\<close> loops of \<^verbatim>\<open>_reconstruct_bidi_path\<close>. On a dictionary with a cycle
  they do not return.
\<close>

partial_function (option) walk_left :: "parents \<Rightarrow> title option \<Rightarrow> title list \<Rightarrow> title list option" where
  "walk_left parent_fwd node left =
     (case node of
        None \<Rightarrow> Some left
      | Some n \<Rightarrow> walk_left parent_fwd (pget parent_fwd n) (left @ [n]))"

partial_function (option) walk_right ::
  "parents \<Rightarrow> title \<Rightarrow> title option \<Rightarrow> title list \<Rightarrow> title list option" where
  "walk_right parent_bwd target cur right =
     (case cur of
        None \<Rightarrow> Some right
      | Some k \<Rightarrow>
          if k = target then Some right
          else (case pget parent_bwd k of
                  None \<Rightarrow> Some right
                | Some nxt \<Rightarrow> walk_right parent_bwd target (Some nxt) (right @ [nxt])))"

declare walk_left.simps [code]
declare walk_right.simps [code]

definition reconstruct_bidi_path ::
  "parents \<Rightarrow> parents \<Rightarrow> title \<Rightarrow> title \<Rightarrow> title \<Rightarrow> (error + title list) option" where
  "reconstruct_bidi_path parent_fwd parent_bwd meeting_node start target =
     (case walk_left parent_fwd (Some meeting_node) [] of
        None \<Rightarrow> None
      | Some left0 \<Rightarrow>
          (let left = rev left0
           in case walk_right parent_bwd target (Some meeting_node) [] of
                None \<Rightarrow> None
              | Some right \<Rightarrow>
                  (let full_path = left @ right
                   in case full_path of
                        [] \<Rightarrow> Some (Inl (IndexError ''list index out of range''))
                      | x # _ \<Rightarrow>
                          (let full_path = (if x \<noteq> start then [start] @ full_path else full_path);
                               full_path = (if last full_path \<noteq> target
                                            then full_path @ [target] else full_path)
                           in Some (Inr full_path)))))"

definition record_linkshere :: "title \<Rightarrow> title list \<Rightarrow> digraph \<Rightarrow> digraph" where
  "record_linkshere current incoming G =
     fold (\<lambda>n G. let G1 = (if \<not> has_node G n then add_node n G else G)
                 in if \<not> has_edge G1 n current then add_edge n current G1 else G1)
          incoming G"

type_synonym frontier = "(title \<times> nat) list"

definition fwd_enqueue ::
  "title \<Rightarrow> nat \<Rightarrow> title \<Rightarrow> frontier \<times> title set \<times> parents \<times> crawler
    \<Rightarrow> frontier \<times> title set \<times> parents \<times> crawler" where
  "fwd_enqueue current depth n s =
     (case s of (q_fwd, visited_fwd, parent_fwd, c) \<Rightarrow>
        if n \<notin> visited_fwd
        then (q_fwd @ [(n, depth + 1)], insert n visited_fwd, parent_fwd(n \<mapsto> Some current),
              c\<lparr>decision_info := (decision_info c)((current, n) \<mapsto>
                   \<lparr>di_method = ''bidi_fwd'', di_depth = depth + 1,
                    di_note = ''forward enqueued from '' @ current, di_score = None\<rparr>)\<rparr>)
        else (q_fwd, visited_fwd, parent_fwd, c))"

definition bwd_enqueue ::
  "title \<Rightarrow> nat \<Rightarrow> title \<Rightarrow> frontier \<times> title set \<times> parents \<times> crawler
    \<Rightarrow> frontier \<times> title set \<times> parents \<times> crawler" where
  "bwd_enqueue current depth n s =
     (case s of (q_bwd, visited_bwd, parent_bwd, c) \<Rightarrow>
        if n \<notin> visited_bwd
        then (q_bwd @ [(n, depth + 1)], insert n visited_bwd, parent_bwd(n \<mapsto> Some current),
              c\<lparr>decision_info := (decision_info c)((n, current) \<mapsto>
                   \<lparr>di_method = ''bidi_bwd'', di_depth = depth + 1,
                    di_note = ''backward enqueued: '' @ n @ '' links to '' @ current,
                    di_score = None\<rparr>)\<rparr>)
        else (q_bwd, visited_bwd, parent_bwd, c))"

text \<open>The \<^verbatim>\<open>return\<close> at a meeting node: the path is rebuilt from the parent dictionaries.\<close>

definition bidi_return ::
  "parents \<Rightarrow> parents \<Rightarrow> title \<Rightarrow> title \<Rightarrow> title \<Rightarrow> crawler \<Rightarrow> outcome option" where
  "bidi_return parent_fwd parent_bwd meet start target c =
     (case reconstruct_bidi_path parent_fwd parent_bwd meet start target of
        None \<Rightarrow> None
      | Some (Inl e) \<Rightarrow> Some (Inl e, c)
      | Some (Inr p) \<Rightarrow> Some (Inr (Some p), c))"

type_synonym bidi_state =
  "frontier \<times> frontier \<times> title set \<times> title set \<times> parents \<times> parents \<times> nat \<times> crawler"

text \<open>
  The two branches of the body of \<^verbatim>\<open>while q_fwd and q_bwd:\<close> in
  \<^verbatim>\<open>find_path_bidi\<close>, on the loop variables \<open>(q_fwd, q_bwd, visited_fwd,
  visited_bwd, parent_fwd, parent_bwd, visited_count, self)\<close>: the forward one takes a
  node from \<open>q_fwd\<close> and asks for its outgoing links, the backward one takes a node from
  \<open>q_bwd\<close> and asks for its incoming links. \<^verbatim>\<open>next(iter(inter))\<close> is the first
  element of the intersection in its iteration order.
\<close>

fun bidi_forward ::
  "world \<Rightarrow> title \<Rightarrow> title \<Rightarrow> int \<Rightarrow> int \<Rightarrow> bidi_state \<Rightarrow> (outcome, bidi_state) flow option" where
  "bidi_forward W start target max_depth max_visited
     (q_fwd, q_bwd, visited_fwd, visited_bwd, parent_fwd, parent_bwd, visited_count, c) =
     (case hd q_fwd of (current, depth) \<Rightarrow>
        (let q_fwd = tl q_fwd; visited_count = visited_count + 1
         in if int visited_count > max_visited
            then Some (Done (Inl (RuntimeError ''Visited cap exceeded; aborting''), c))
            else if int depth \<ge> max_depth
            then Some (Next (q_fwd, q_bwd, visited_fwd, visited_bwd, parent_fwd, parent_bwd,
                             visited_count, c))
            else (case get_links W c current of
                    None \<Rightarrow> None
                  | Some (r, c1) \<Rightarrow>
                      (let neighbors = caught r;
                           c2 = c1\<lparr>crawl_graph := record_links current neighbors (crawl_graph c1)\<rparr>;
                           inter = set_iter W (filter (\<lambda>n. n \<in> visited_bwd) neighbors)
                       in if inter \<noteq> []
                          then (let meet = hd inter;
                                    c3 = (if (current, meet) \<notin> dom (decision_info c2)
                                          then c2\<lparr>decision_info := (decision_info c2)((current, meet) \<mapsto>
                                                 \<lparr>di_method = ''bidi_fwd'', di_depth = depth + 1,
                                                  di_note = ''meeting edge (found by forward expansion)'',
                                                  di_score = None\<rparr>)\<rparr>
                                          else c2)
                                in map_option Done
                                     (bidi_return parent_fwd parent_bwd meet start target c3))
                          else (case fold (fwd_enqueue current depth) neighbors
                                       (q_fwd, visited_fwd, parent_fwd, c2) of
                                  (q_fwd1, visited_fwd1, parent_fwd1, c3) \<Rightarrow>
                                    Some (Next (q_fwd1, q_bwd, visited_fwd1, visited_bwd, parent_fwd1,
                                                parent_bwd, visited_count, c3)))))))"

fun bidi_backward ::
  "world \<Rightarrow> title \<Rightarrow> title \<Rightarrow> int \<Rightarrow> int \<Rightarrow> bidi_state \<Rightarrow> (outcome, bidi_state) flow option" where
  "bidi_backward W start target max_depth max_visited
     (q_fwd, q_bwd, visited_fwd, visited_bwd, parent_fwd, parent_bwd, visited_count, c) =
     (case hd q_bwd of (current, depth) \<Rightarrow>
        (let q_bwd = tl q_bwd; visited_count = visited_count + 1
         in if int visited_count > max_visited
            then Some (Done (Inl (RuntimeError ''Visited cap exceeded; aborting''), c))
            else if int depth \<ge> max_depth
            then Some (Next (q_fwd, q_bwd, visited_fwd, visited_bwd, parent_fwd, parent_bwd,
                             visited_count, c))
            else (case get_linkshere W c current of
                    None \<Rightarrow> None
                  | Some (r, c1) \<Rightarrow>
                      (let incoming = caught r;
                           c2 = c1\<lparr>crawl_graph := record_linkshere current incoming (crawl_graph c1)\<rparr>;
                           inter = set_iter W (filter (\<lambda>n. n \<in> visited_fwd) incoming)
                       in if inter \<noteq> []
                          then (let meet = hd inter;
                                    c3 = (if (meet, current) \<notin> dom (decision_info c2)
                                          then c2\<lparr>decision_info := (decision_info c2)((meet, current) \<mapsto>
                                                 \<lparr>di_method = ''bidi_bwd'', di_depth = depth + 1,
                                                  di_note = ''meeting edge (found by backward expansion)'',
                                                  di_score = None\<rparr>)\<rparr>
                                          else c2)
                                in map_option Done
                                     (bidi_return parent_fwd parent_bwd meet start target c3))
                          else (case fold (bwd_enqueue current depth) incoming
                                       (q_bwd, visited_bwd, parent_bwd, c2) of
                                  (q_bwd1, visited_bwd1, parent_bwd1, c3) \<Rightarrow>
                                    Some (Next (q_fwd, q_bwd1, visited_fwd, visited_bwd1, parent_fwd,
                                                parent_bwd1, visited_count, c3)))))))"

text \<open>
  One round of the loop: it ends when either queue is empty, and otherwise takes the
  forward branch when \<^verbatim>\<open>len(q_fwd) <= len(q_bwd)\<close> and the backward branch when not.
\<close>

fun bidi_step ::
  "world \<Rightarrow> title \<Rightarrow> title \<Rightarrow> int \<Rightarrow> int \<Rightarrow> bidi_state \<Rightarrow> (outcome, bidi_state) flow option" where
  "bidi_step W start target max_depth max_visited
     (q_fwd, q_bwd, visited_fwd, visited_bwd, parent_fwd, parent_bwd, visited_count, c) =
     (if q_fwd = [] \<or> q_bwd = [] then Some (Done (Inr None, c))
      else if length q_fwd \<le> length q_bwd
      then bidi_forward W start target max_depth max_visited
             (q_fwd, q_bwd, visited_fwd, visited_bwd, parent_fwd, parent_bwd, visited_count, c)
      else bidi_backward W start target max_depth max_visited
             (q_fwd, q_bwd, visited_fwd, visited_bwd, parent_fwd, parent_bwd, visited_count, c))"

lemma bidi_step_Next:
  assumes "bidi_step W start target max_depth max_visited (qf, qb, vf, vb, pf, pb, vc, c)
             = Some (Next (qf', qb', vf', vb', pf', pb', vc', c'))"
  shows "vc' = vc + 1 \<and> int vc' \<le> max_visited"
  using assms
  by (auto simp: Let_def split: if_splits option.splits prod.splits)

function bidi_loop :: "world \<Rightarrow> title \<Rightarrow> title \<Rightarrow> int \<Rightarrow> int \<Rightarrow> bidi_state \<Rightarrow> outcome option" where
  "bidi_loop W start target max_depth max_visited st =
     (case bidi_step W start target max_depth max_visited st of
        None \<Rightarrow> None
      | Some (Done r) \<Rightarrow> Some r
      | Some (Next st') \<Rightarrow> bidi_loop W start target max_depth max_visited st')"
  by pat_completeness auto
termination
proof (relation "measure (\<lambda>(W, start, target, max_depth, max_visited, (qf, qb, vf, vb, pf, pb, vc, c)).
                   nat (max_visited + 1 - int vc))")
  show "wf (measure (\<lambda>(W, start, target, max_depth, max_visited, (qf, qb, vf, vb, pf, pb, vc, c)).
                   nat (max_visited + 1 - int vc)))"
    by simp
next
  fix W start target max_depth max_visited st x2 x2a
  assume "bidi_step W start target max_depth max_visited st = Some x2" and "x2 = Next x2a"
  then have step: "bidi_step W start target max_depth max_visited st = Some (Next x2a)"
    by simp
  obtain qf qb vf vb pf pb vc c where st: "st = (qf, qb, vf, vb, pf, pb, vc, c)"
    by (metis prod_cases3)
  obtain qf' qb' vf' vb' pf' pb' vc' c' where st': "x2a = (qf', qb', vf', vb', pf', pb', vc', c')"
    by (metis prod_cases3)
  from bidi_step_Next[OF step[unfolded st st']]
  show "((W, start, target, max_depth, max_visited, x2a),
         (W, start, target, max_depth, max_visited, st))
          \<in> measure (\<lambda>(W, start, target, max_depth, max_visited, (qf, qb, vf, vb, pf, pb, vc, c)).
                   nat (max_visited + 1 - int vc))"
    by (simp add: st st')
qed

declare bidi_loop.simps [simp del]

definition find_path_bidi ::
  "world \<Rightarrow> crawler \<Rightarrow> title \<Rightarrow> title \<Rightarrow> int \<Rightarrow> int \<Rightarrow> outcome option" where
  "find_path_bidi W c start_title target_title max_depth max_visited =
     (case resolve_title W c start_title of
        (Inl e, c1) \<Rightarrow> Some (Inl e, c1)
      | (Inr None, c1) \<Rightarrow> Some (Inl (ValueError (''Start page not found: '' @ start_title)), c1)
      | (Inr (Some start), c1) \<Rightarrow>
          (case resolve_title W c1 target_title of
             (Inl e, c2) \<Rightarrow> Some (Inl e, c2)
           | (Inr None, c2) \<Rightarrow>
               Some (Inl (ValueError (''Target page not found: '' @ target_title)), c2)
           | (Inr (Some target), c2) \<Rightarrow>
               if start = target then Some (Inr (Some [start]), c2)
               else (let c3 = c2\<lparr>crawl_graph := add_node target (add_node start empty_graph),
                                 decision_info := Map.empty\<rparr>
                     in bidi_loop W start target max_depth max_visited
                          ([(start, 0)], [(target, 0)], {start}, {target},
                           [start \<mapsto> None], [target \<mapsto> None], 0, c3))))"

section \<open>Example encyclopedias\<close>

text \<open>
  A small encyclopedia for concrete runs: every title except \<open>X\<close> names a page (no
  redirects), the outgoing links of a page come from the table \<open>out\<close> (an \<open>Inl\<close>
  entry makes the request fail) and the incoming links from the table \<open>inc\<close>. Sets
  are iterated in insertion order, titles are taken as lower case already, a blank is the
  only whitespace, and the similarity ratio of two titles is \<open>1\<close> when they are equal,
  \<open>1/2\<close> when they begin with the same character and \<open>0\<close> otherwise.
\<close>

definition table_world ::
  "(title \<Rightarrow> error + title list) \<Rightarrow> (title \<Rightarrow> error + title list) \<Rightarrow> world" where
  "table_world out inc = \<lparr>
     api_get = (\<lambda>log req. case req of
        Query_info t \<Rightarrow>
          Inr \<lparr>pages = [\<lparr>pg_title = t, pg_missing = (t = ''X''), pg_links = [], pg_linkshere = []\<rparr>],
               plcontinue = None, lhcontinue = None\<rparr>
      | Query_links t tok \<Rightarrow>
          (case out t of
             Inl e \<Rightarrow> Inl e
           | Inr ls \<Rightarrow>
               Inr \<lparr>pages = [\<lparr>pg_title = t, pg_missing = False, pg_links = map (Pair 0) ls,
                              pg_linkshere = []\<rparr>],
                    plcontinue = None, lhcontinue = None\<rparr>)
      | Query_linkshere t tok \<Rightarrow>
          (case inc t of
             Inl e \<Rightarrow> Inl e
           | Inr ls \<Rightarrow>
               Inr \<lparr>pages = [\<lparr>pg_title = t, pg_missing = False, pg_links = [],
                              pg_linkshere = ls\<rparr>],
                    plcontinue = None, lhcontinue = None\<rparr>)),
     set_order = (\<lambda>xs. xs),
     str_lower = (\<lambda>s. s),
     is_space = (\<lambda>ch. ch = CHR '' ''),
     seq_ratio = (\<lambda>a b. if a = b then 1 else if take 1 a = take 1 b then 1 / 2 else 0)\<rparr>"

text \<open>The chain \<open>A \<rightarrow> B \<rightarrow> T\<close>.\<close>

definition chain_out :: "title \<Rightarrow> error + title list" where
  "chain_out t = (if t = ''A'' then Inr [''B''] else if t = ''B'' then Inr [''T''] else Inr [])"

definition chain_inc :: "title \<Rightarrow> error + title list" where
  "chain_inc t = (if t = ''T'' then Inr [''B''] else if t = ''B'' then Inr [''A''] else Inr [])"

definition chain_world :: world where
  "chain_world = table_world chain_out chain_inc"


text \<open>The page \<open>A\<close> links to \<open>B\<close>, \<open>Tb\<close> and \<open>C\<close>, which link nowhere.\<close>

definition fan_out :: "title \<Rightarrow> error + title list" where
  "fan_out t = (if t = ''A'' then Inr [''B'', ''Tb'', ''C''] else Inr [])"

definition fan_world :: world where
  "fan_world = table_world fan_out (\<lambda>t. Inr [])"

section \<open>Auxiliary notions for the statements\<close>

text \<open>
  \<open>same_net c c'\<close>: the crawler \<open>c'\<close> differs from \<open>c\<close> at most in its crawl graph and
  its decision info; the caches and the requests sent are the same.
\<close>

definition same_net :: "crawler \<Rightarrow> crawler \<Rightarrow> bool" where
  "same_net c c' \<longleftrightarrow> c' = c\<lparr>crawl_graph := crawl_graph c', decision_info := decision_info c'\<rparr>"




text \<open>
  \<open>cache_le c c'\<close>: every entry of the two link caches of \<open>c\<close> is an entry of the
  caches of \<open>c'\<close>, with the same set.
\<close>

definition cache_le :: "crawler \<Rightarrow> crawler \<Rightarrow> bool" where
  "cache_le c c' \<longleftrightarrow> link_cache c \<subseteq>\<^sub>m link_cache c' \<and> linkshere_cache c \<subseteq>\<^sub>m linkshere_cache c'"


text \<open>
  The first \<open>k\<close> rounds of the loop of \<^verbatim>\<open>find_path_bfs\<close>, when each of them hands
  over to a next round: the titles taken from the queue, in that order, and the loop
  variables after the last of these rounds.
\<close>

fun bfs_rounds ::
  "world \<Rightarrow> title \<Rightarrow> int \<Rightarrow> int \<Rightarrow> nat \<Rightarrow> bfs_state \<Rightarrow> (title list \<times> bfs_state) option" where
  "bfs_rounds W target max_depth max_visited 0 st = Some ([], st)"
| "bfs_rounds W target max_depth max_visited (Suc k) st =
     (case fst st of
        [] \<Rightarrow> None
      | (current, path, depth) # q \<Rightarrow>
          (case bfs_step W target max_depth max_visited st of
             Some (Next st') \<Rightarrow>
               (case bfs_rounds W target max_depth max_visited k st' of
                  None \<Rightarrow> None
                | Some (taken, st'') \<Rightarrow> Some (current # taken, st''))
           | _ \<Rightarrow> None))"

text \<open>The heap with which one round of the best-first loop hands over to the next.\<close>

fun best_heap :: "(outcome, best_state) flow \<Rightarrow> item list" where
  "best_heap (Done r) = []"
| "best_heap (Next (heap, visited, vc, uid, c)) = heap"

text \<open>The score and the title of a heap item \<open>(-score, depth, uid, current, path)\<close>.\<close>

definition item_score :: "item \<Rightarrow> real" where
  "item_score x = - fst x"

definition item_title :: "item \<Rightarrow> title" where
  "item_title x = fst (snd (snd (snd x)))"

text \<open>
  Paths in a link graph \<open>g\<close>, which gives the links of every title: in a path each
  title is a link of the one before it. \<open>link_path g s t p\<close>: the path \<open>p\<close> leads from
  \<open>s\<close> to \<open>t\<close>.
\<close>

fun follows_links :: "(title \<Rightarrow> title list) \<Rightarrow> title list \<Rightarrow> bool" where
  "follows_links g (x # y # p) \<longleftrightarrow> y \<in> set (g x) \<and> follows_links g (y # p)"
| "follows_links g p \<longleftrightarrow> True"

definition link_path :: "(title \<Rightarrow> title list) \<Rightarrow> title \<Rightarrow> title \<Rightarrow> title list \<Rightarrow> bool" where
  "link_path g s t p \<longleftrightarrow> p \<noteq> [] \<and> hd p = s \<and> last p = t \<and> follows_links g p"


text \<open>The titles that a path of at most \<open>k\<close> titles reaches from \<open>start\<close>.\<close>

definition near :: "(title \<Rightarrow> title list) \<Rightarrow> title \<Rightarrow> nat \<Rightarrow> title set" where
  "near g start k = {v. \<exists>p. link_path g start v p \<and> length p \<le> k}"

text \<open>
  The invariant of the breadth-first loop, for a queue whose first entry has depth
  \<open>dh\<close>: every entry carries a path from the start of minimal length, the depths in the
  queue are sorted and are \<open>dh\<close> or \<open>dh + 1\<close>; every title within \<open>dh\<close> links of the
  start is visited; the titles nearer than that, and those at that distance that have left
  the queue, have been expanded without finding the target; and every visited title is
  within \<open>dh\<close> links of the start or waits in the queue.
\<close>

definition bfs_inv ::
  "(title \<Rightarrow> title list) \<Rightarrow> title \<Rightarrow> title \<Rightarrow> int
    \<Rightarrow> (title \<times> title list \<times> nat) list \<Rightarrow> title set \<Rightarrow> bool" where
  "bfs_inv g start target max_depth q V \<longleftrightarrow>
     (\<forall>dh. q \<noteq> [] \<and> dh = snd (snd (hd q)) \<longrightarrow>
        (\<forall>(v, pth, d) \<in> set q.
            link_path g start v pth \<and> length pth = d + 1 \<and> v \<in> V \<and> v \<notin> near g start d
            \<and> dh \<le> d \<and> d \<le> dh + 1 \<and> (d = 0 \<or> int d \<le> max_depth))
        \<and> sorted (map (\<lambda>e. snd (snd e)) q)
        \<and> near g start (dh + 1) \<subseteq> V
        \<and> (\<forall>u \<in> near g start dh. target \<notin> set (g u) \<and> set (g u) \<subseteq> V)
        \<and> (int dh < max_depth \<longrightarrow>
             (\<forall>u \<in> near g start (dh + 1). u \<notin> fst ` set q \<longrightarrow>
                target \<notin> set (g u) \<and> set (g u) \<subseteq> V))
        \<and> V \<subseteq> near g start (dh + 1) \<union> fst ` set q)"



section \<open>Properties of title resolution\<close>

lemma resolve_title_fields:
  "link_cache (snd (resolve_title W c t)) = link_cache c"
  "linkshere_cache (snd (resolve_title W c t)) = linkshere_cache c"
  "crawl_graph (snd (resolve_title W c t)) = crawl_graph c"
  "decision_info (snd (resolve_title W c t)) = decision_info c"
  by (auto simp: resolve_title_def send_def Let_def
      split: option.splits sum.splits list.splits prod.splits)

lemma resolve_title_requests:
  "requests (snd (resolve_title W c t)) = requests c \<or>
   requests (snd (resolve_title W c t)) = requests c @ [Query_info t]"
  by (auto simp: resolve_title_def send_def Let_def
      split: option.splits sum.splits list.splits prod.splits)

lemma resolve_title_table_X:
  "resolve_title (table_world out inc) new_crawler ''X''
     = (Inr None, new_crawler\<lparr>requests := [Query_info ''X'']\<rparr>)"
  by (simp add: resolve_title_def send_def table_world_def new_crawler_def)

lemma resolve_title_table_A:
  "resolve_title (table_world out inc) new_crawler ''A''
     = (Inr (Some ''A''), new_crawler\<lparr>requests := [Query_info ''A''],
                                       title_cache := [''A'' \<mapsto> ''A'']\<rparr>)"
  by (simp add: resolve_title_def send_def table_world_def new_crawler_def Let_def)

section \<open>Pages that do not exist\<close>

text \<open>
  Claim C10. When \<^verbatim>\<open>resolve_title\<close> finds no page for the start title, or finds the start
  page and no page for the target title, each of the three searches raises the
  \<^verbatim>\<open>ValueError\<close> that names the title given, and the crawler is left as the title
  resolution left it: crawl graph, decision info and both link caches are those of the
  crawler before the call, so no search has taken place.
\<close>

theorem missing_page_raises:
  "(fst (resolve_title W c start_title) = Inr None \<longrightarrow>
      (\<forall>r \<in> {find_path_bfs W c start_title target_title max_depth max_visited,
              find_path_best_first W c start_title target_title max_depth max_visited max_branch,
              find_path_bidi W c start_title target_title max_depth max_visited}.
         \<exists>c'. r = Some (Inl (ValueError (''Start page not found: '' @ start_title)), c')
            \<and> c' = snd (resolve_title W c start_title)
            \<and> crawl_graph c' = crawl_graph c \<and> decision_info c' = decision_info c
            \<and> link_cache c' = link_cache c \<and> linkshere_cache c' = linkshere_cache c))
   \<and> (\<forall>start c1. resolve_title W c start_title = (Inr (Some start), c1)
         \<and> fst (resolve_title W c1 target_title) = Inr None \<longrightarrow>
      (\<forall>r \<in> {find_path_bfs W c start_title target_title max_depth max_visited,
              find_path_best_first W c start_title target_title max_depth max_visited max_branch,
              find_path_bidi W c start_title target_title max_depth max_visited}.
         \<exists>c'. r = Some (Inl (ValueError (''Target page not found: '' @ target_title)), c')
            \<and> c' = snd (resolve_title W c1 target_title)
            \<and> crawl_graph c' = crawl_graph c \<and> decision_info c' = decision_info c
            \<and> link_cache c' = link_cache c \<and> linkshere_cache c' = linkshere_cache c))"
proof (intro conjI impI allI)
  assume a: "fst (resolve_title W c start_title) = Inr None"
  obtain c1 where r: "resolve_title W c start_title = (Inr None, c1)"
    using a by (cases "resolve_title W c start_title") auto
  have f: "crawl_graph c1 = crawl_graph c" "decision_info c1 = decision_info c"
      "link_cache c1 = link_cache c" "linkshere_cache c1 = linkshere_cache c"
    using resolve_title_fields[of W c start_title] by (simp_all add: r)
  show "\<forall>r \<in> {find_path_bfs W c start_title target_title max_depth max_visited,
              find_path_best_first W c start_title target_title max_depth max_visited max_branch,
              find_path_bidi W c start_title target_title max_depth max_visited}.
         \<exists>c'. r = Some (Inl (ValueError (''Start page not found: '' @ start_title)), c')
            \<and> c' = snd (resolve_title W c start_title)
            \<and> crawl_graph c' = crawl_graph c \<and> decision_info c' = decision_info c
            \<and> link_cache c' = link_cache c \<and> linkshere_cache c' = linkshere_cache c"
    by (simp add: find_path_bfs_def find_path_best_first_def find_path_bidi_def r f)
next
  fix start c1
  assume a: "resolve_title W c start_title = (Inr (Some start), c1)
         \<and> fst (resolve_title W c1 target_title) = Inr None"
  obtain c2 where r: "resolve_title W c1 target_title = (Inr None, c2)"
    using a by (cases "resolve_title W c1 target_title") auto
  have f1: "crawl_graph c1 = crawl_graph c" "decision_info c1 = decision_info c"
      "link_cache c1 = link_cache c" "linkshere_cache c1 = linkshere_cache c"
    using resolve_title_fields[of W c start_title] a by simp_all
  have f: "crawl_graph c2 = crawl_graph c" "decision_info c2 = decision_info c"
      "link_cache c2 = link_cache c" "linkshere_cache c2 = linkshere_cache c"
    using resolve_title_fields[of W c1 target_title] f1 by (simp_all add: r)
  show "\<forall>r \<in> {find_path_bfs W c start_title target_title max_depth max_visited,
              find_path_best_first W c start_title target_title max_depth max_visited max_branch,
              find_path_bidi W c start_title target_title max_depth max_visited}.
         \<exists>c'. r = Some (Inl (ValueError (''Target page not found: '' @ target_title)), c')
            \<and> c' = snd (resolve_title W c1 target_title)
            \<and> crawl_graph c' = crawl_graph c \<and> decision_info c' = decision_info c
            \<and> link_cache c' = link_cache c \<and> linkshere_cache c' = linkshere_cache c"
    using a by (simp add: find_path_bfs_def find_path_best_first_def find_path_bidi_def r f)
qed

theorem missing_page_raises_witness:
  "fst (resolve_title chain_world new_crawler ''X'') = Inr None
   \<and> find_path_bfs chain_world new_crawler ''X'' ''T'' 6 100
       = Some (Inl (ValueError ''Start page not found: X''), new_crawler\<lparr>requests := [Query_info ''X'']\<rparr>)
   \<and> find_path_bidi chain_world new_crawler ''X'' ''T'' 6 100
       = Some (Inl (ValueError ''Start page not found: X''), new_crawler\<lparr>requests := [Query_info ''X'']\<rparr>)
   \<and> resolve_title chain_world new_crawler ''A''
       = (Inr (Some ''A''), new_crawler\<lparr>requests := [Query_info ''A''], title_cache := [''A'' \<mapsto> ''A'']\<rparr>)
   \<and> fst (resolve_title chain_world
        (new_crawler\<lparr>requests := [Query_info ''A''], title_cache := [''A'' \<mapsto> ''A'']\<rparr>) ''X'') = Inr None
   \<and> find_path_best_first chain_world new_crawler ''A'' ''X'' 6 100 50
       = Some (Inl (ValueError ''Target page not found: X''),
           new_crawler\<lparr>requests := [Query_info ''A'', Query_info ''X''], title_cache := [''A'' \<mapsto> ''A'']\<rparr>)"
proof -
  let ?c1 = "new_crawler\<lparr>requests := [Query_info ''A''], title_cache := [''A'' \<mapsto> ''A'']\<rparr>"
  have h1: "fst (resolve_title chain_world new_crawler ''X'') = Inr None"
    by (simp add: chain_world_def resolve_title_table_X)
  have h2: "resolve_title chain_world new_crawler ''A'' = (Inr (Some ''A''), ?c1)"
    by (simp add: chain_world_def resolve_title_table_A)
  have h3: "resolve_title chain_world ?c1 ''X'' = (Inr None, new_crawler\<lparr>requests := [Query_info ''A'', Query_info ''X''],
                                       title_cache := [''A'' \<mapsto> ''A'']\<rparr>)"
    by (simp add: chain_world_def resolve_title_def send_def table_world_def new_crawler_def Let_def)
  from missing_page_raises[of chain_world new_crawler "''X''" "''T''" 6 100 50] h1
  have a: "find_path_bfs chain_world new_crawler ''X'' ''T'' 6 100
       = Some (Inl (ValueError ''Start page not found: X''), new_crawler\<lparr>requests := [Query_info ''X'']\<rparr>)"
     "find_path_bidi chain_world new_crawler ''X'' ''T'' 6 100
       = Some (Inl (ValueError ''Start page not found: X''), new_crawler\<lparr>requests := [Query_info ''X'']\<rparr>)"
    by (simp_all add: chain_world_def resolve_title_table_X)
  from missing_page_raises[of chain_world new_crawler "''A''" "''X''" 6 100 50] h2 h3
  have b: "find_path_best_first chain_world new_crawler ''A'' ''X'' 6 100 50
       = Some (Inl (ValueError ''Target page not found: X''),
           new_crawler\<lparr>requests := [Query_info ''A'', Query_info ''X''], title_cache := [''A'' \<mapsto> ''A'']\<rparr>)"
    by simp
  show ?thesis using h1 h2 h3 a b by simp
qed

text \<open>
  Claim C9. When the start title and the target title resolve to the same page, each of
  the three searches returns the one-node path of that page at once: the crawler that
  comes back is the one the two title resolutions left (with the crawl graph reset to the
  start node and the decision info emptied by the breadth-first and best-first searches,
  which reset them before the test), so the link caches are untouched, the only requests
  sent are title resolutions, and no decision about any enqueued node was recorded.
\<close>

theorem same_page_single_node_path:
  assumes "resolve_title W c start_title = (Inr (Some start), c1)"
    and "resolve_title W c1 target_title = (Inr (Some start), c2)"
  shows "find_path_bfs W c start_title target_title max_depth max_visited
           = Some (Inr (Some [start]),
                   c2\<lparr>crawl_graph := add_node start empty_graph, decision_info := Map.empty\<rparr>)
       \<and> find_path_best_first W c start_title target_title max_depth max_visited max_branch
           = Some (Inr (Some [start]),
                   c2\<lparr>crawl_graph := add_node start empty_graph, decision_info := Map.empty\<rparr>)
       \<and> find_path_bidi W c start_title target_title max_depth max_visited
           = Some (Inr (Some [start]), c2)
       \<and> link_cache c2 = link_cache c \<and> linkshere_cache c2 = linkshere_cache c
       \<and> (\<exists>rs. requests c2 = requests c @ rs
                \<and> set rs \<subseteq> {Query_info start_title, Query_info target_title})"
proof -
  have f1: "link_cache c1 = link_cache c" "linkshere_cache c1 = linkshere_cache c"
    using resolve_title_fields[of W c start_title] assms(1) by simp_all
  have f2: "link_cache c2 = link_cache c1" "linkshere_cache c2 = linkshere_cache c1"
    using resolve_title_fields[of W c1 target_title] assms(2) by simp_all
  have r1: "requests c1 = requests c \<or> requests c1 = requests c @ [Query_info start_title]"
    using resolve_title_requests[of W c start_title] assms(1) by simp
  have r2: "requests c2 = requests c1 \<or> requests c2 = requests c1 @ [Query_info target_title]"
    using resolve_title_requests[of W c1 target_title] assms(2) by simp
  have rs: "\<exists>rs. requests c2 = requests c @ rs
                \<and> set rs \<subseteq> {Query_info start_title, Query_info target_title}"
    using r1 r2 by auto
  show ?thesis
    using f1 f2 rs
    by (simp add: find_path_bfs_def find_path_best_first_def find_path_bidi_def assms)
qed

theorem same_page_single_node_path_witness:
  "resolve_title chain_world new_crawler ''A''
     = (Inr (Some ''A''), new_crawler\<lparr>requests := [Query_info ''A''], title_cache := [''A'' \<mapsto> ''A'']\<rparr>)
   \<and> resolve_title chain_world
        (new_crawler\<lparr>requests := [Query_info ''A''], title_cache := [''A'' \<mapsto> ''A'']\<rparr>) ''A''
     = (Inr (Some ''A''), new_crawler\<lparr>requests := [Query_info ''A''], title_cache := [''A'' \<mapsto> ''A'']\<rparr>)
   \<and> find_path_bidi chain_world new_crawler ''A'' ''A'' 6 100
     = Some (Inr (Some [''A'']),
             new_crawler\<lparr>requests := [Query_info ''A''], title_cache := [''A'' \<mapsto> ''A'']\<rparr>)
   \<and> find_path_bfs chain_world new_crawler ''A'' ''A'' 6 100
     = Some (Inr (Some [''A'']),
             new_crawler\<lparr>requests := [Query_info ''A''], title_cache := [''A'' \<mapsto> ''A''],
                          crawl_graph := add_node ''A'' empty_graph, decision_info := Map.empty\<rparr>)"
proof -
  let ?c1 = "new_crawler\<lparr>requests := [Query_info ''A''], title_cache := [''A'' \<mapsto> ''A'']\<rparr>"
  have h1: "resolve_title chain_world new_crawler ''A'' = (Inr (Some ''A''), ?c1)"
    by (simp add: chain_world_def resolve_title_table_A)
  have h2: "resolve_title chain_world ?c1 ''A'' = (Inr (Some ''A''), ?c1)"
    by (simp add: resolve_title_def new_crawler_def)
  from same_page_single_node_path[OF h1 h2, of 6 100 50] h1 h2
  show ?thesis by simp
qed









section \<open>The visited cap and failed fetches\<close>

lemma set_iter_Nil [simp]: "set_iter W [] = []"
  by (simp add: set_iter_def Let_def)

lemma record_links_Nil [simp]: "record_links current [] G = G"
  by (simp add: record_links_def)

lemma record_linkshere_Nil [simp]: "record_linkshere current [] G = G"
  by (simp add: record_linkshere_def)

lemma caught_Inl [simp]: "caught (Inl e) = []"
  by (simp add: caught_def)

lemma caught_Inr [simp]: "caught (Inr ns) = ns"
  by (simp add: caught_def)

lemma score_unvisited_Nil [simp]: "score_unvisited W target visited [] = []"
  by (simp add: score_unvisited_def)






section \<open>Which frontier the bidirectional search expands\<close>

lemma same_net_iff:
  "same_net c c' \<longleftrightarrow> requests c' = requests c \<and> link_cache c' = link_cache c
     \<and> linkshere_cache c' = linkshere_cache c \<and> title_cache c' = title_cache c"
  unfolding same_net_def by (cases c, cases c') auto

lemma same_net_refl [simp]: "same_net c c"
  by (simp add: same_net_iff)


lemma same_net_graph [simp]:
  "same_net c (c'\<lparr>crawl_graph := G\<rparr>) \<longleftrightarrow> same_net c c'"
  "same_net (c\<lparr>crawl_graph := G\<rparr>) c' \<longleftrightarrow> same_net c c'"
  by (simp_all add: same_net_iff)

lemma same_net_decision [simp]:
  "same_net c (c'\<lparr>decision_info := D\<rparr>) \<longleftrightarrow> same_net c c'"
  "same_net (c\<lparr>decision_info := D\<rparr>) c' \<longleftrightarrow> same_net c c'"
  by (simp_all add: same_net_iff)
















section \<open>The path returned by the bidirectional search\<close>

text \<open>
  Claim C2 does not hold of the code. On the chain \<open>A \<rightarrow> B \<rightarrow> T\<close> the forward side
  expands \<open>A\<close>, then \<open>B\<close>, and meets the backward side at \<open>T\<close>, a link of \<open>B\<close>.
  The meeting node has no entry in \<^verbatim>\<open>parent_fwd\<close> (the node being expanded is not
  recorded as its parent), so the walk from it stops at once and the start is put in
  front of it: the path returned is \<open>[A, T]\<close>, and \<open>A \<rightarrow> T\<close> is not an edge of the
  crawl graph, which holds exactly the links \<open>A \<rightarrow> B\<close> and \<open>B \<rightarrow> T\<close>.
\<close>

theorem bidi_path_skips_expanded_node:
  "map_option fst (find_path_bidi chain_world new_crawler ''A'' ''T'' 6 100)
     = Some (Inr (Some [''A'', ''T'']))
   \<and> map_option (edges \<circ> crawl_graph \<circ> snd)
        (find_path_bidi chain_world new_crawler ''A'' ''T'' 6 100)
     = Some {(''A'', ''B''), (''B'', ''T'')}
   \<and> (''A'', ''T'') \<notin> {(''A'', ''B''), (''B'', ''T'')}
   \<and> map_option fst (find_path_bfs chain_world new_crawler ''A'' ''T'' 6 100)
     = Some (Inr (Some [''A'', ''B'', ''T'']))"
  by code_simp

section \<open>The link caches only grow\<close>

lemma cache_le_refl [simp]: "cache_le c c"
  by (simp add: cache_le_def)






lemma bfs_enqueue_apply:
  "bfs_enqueue current path depth n (q, V, c) =
     (if n \<notin> V
      then (q @ [(n, path @ [n], depth + 1)], insert n V,
            c\<lparr>decision_info := (decision_info c)((current, n) \<mapsto>
                 \<lparr>di_method = ''bfs'', di_depth = depth + 1,
                  di_note = ''enqueued from '' @ current, di_score = None\<rparr>)\<rparr>)
      else (q, V, c))"
  by (simp add: bfs_enqueue_def)





lemma best_enqueue_apply:
  "best_enqueue current path depth top_len (sc, n) (heap, V, uid, c) =
     (if n \<notin> V
      then (heappush heap (- sc, depth + 1, uid + 1, n, path @ [n]), insert n V, uid + 1,
            c\<lparr>decision_info := (decision_info c)((current, n) \<mapsto>
                 \<lparr>di_method = ''best'', di_depth = depth + 1,
                  di_note = ''enqueued by heuristic (top '' @ str_nat top_len @ '')'',
                  di_score = Some sc\<rparr>)\<rparr>)
      else (heap, V, uid, c))"
  by (simp add: best_enqueue_def Let_def)

















section \<open>Breadth-first search visits a title once\<close>

lemma fold_bfs_enqueue_queue:
  "fold (bfs_enqueue current path depth) ns (q, V, c) = (q', V', c')
    \<Longrightarrow> \<exists>new. q' = q @ map (\<lambda>n. (n, path @ [n], depth + 1)) new
              \<and> distinct new \<and> set new = set ns - V \<and> V' = V \<union> set ns"
proof (induction ns arbitrary: q V c)
  case Nil
  then show ?case by simp
next
  case (Cons n ns)
  show ?case
  proof (cases "n \<in> V")
    case True
    with Cons.prems have "fold (bfs_enqueue current path depth) ns (q, V, c) = (q', V', c')"
      by (simp add: bfs_enqueue_apply)
    from Cons.IH[OF this] obtain new where
      "q' = q @ map (\<lambda>n. (n, path @ [n], depth + 1)) new" "distinct new"
      "set new = set ns - V" "V' = V \<union> set ns" by blast
    with True show ?thesis by (intro exI[of _ new]) auto
  next
    case False
    with Cons.prems obtain c1 where
      "fold (bfs_enqueue current path depth) ns
         (q @ [(n, path @ [n], depth + 1)], insert n V, c1) = (q', V', c')"
      by (simp add: bfs_enqueue_apply)
    from Cons.IH[OF this] obtain new where
      n: "q' = (q @ [(n, path @ [n], depth + 1)]) @ map (\<lambda>n. (n, path @ [n], depth + 1)) new"
      "distinct new" "set new = set ns - insert n V" "V' = insert n V \<union> set ns" by blast
    with False show ?thesis by (intro exI[of _ "n # new"]) auto
  qed
qed

lemma bfs_step_queue:
  assumes "bfs_step W target max_depth max_visited ((current, path, depth) # q, V, vc, c)
             = Some (Next (q', V', vc', c'))"
  shows "\<exists>new. q' = q @ map (\<lambda>n. (n, path @ [n], depth + 1)) new
            \<and> distinct new \<and> set new \<inter> V = {} \<and> V' = V \<union> set new \<and> vc' = vc + 1"
proof (cases "int depth \<ge> max_depth")
  case True
  with assms show ?thesis by (intro exI[of _ "[]"]) (auto simp: Let_def split: if_splits)
next
  case False
  with assms obtain r c1 where g: "get_links W c current = Some (r, c1)"
    by (auto simp: Let_def split: if_splits option.splits)
  obtain q1 V1 c3 where f: "fold (bfs_enqueue current path depth) (caught r)
        (q, V, c1\<lparr>crawl_graph := record_links current (caught r) (crawl_graph c1)\<rparr>)
        = (q1, V1, c3)" by (metis prod_cases3)
  from assms False g f have e: "q' = q1" "V' = V1" "vc' = vc + 1"
    by (auto simp: Let_def split: if_splits)
  from fold_bfs_enqueue_queue[OF f] obtain new where
    "q1 = q @ map (\<lambda>n. (n, path @ [n], depth + 1)) new" "distinct new"
    "set new = set (caught r) - V" "V1 = V \<union> set (caught r)" by blast
  with e show ?thesis by (intro exI[of _ new]) auto
qed

lemma bfs_rounds_once:
  assumes "bfs_rounds W target max_depth max_visited k (q0, V0, vc0, c0)
             = Some (taken, (q, V, vc, c))"
    and "distinct (taken0 @ map fst q0)" and "set (taken0 @ map fst q0) = V0"
  shows "distinct (taken0 @ taken @ map fst q) \<and> set (taken0 @ taken @ map fst q) = V
         \<and> vc = vc0 + length taken"
  using assms
proof (induction k arbitrary: q0 V0 vc0 c0 taken taken0)
  case 0
  then show ?case by simp
next
  case (Suc k)
  from Suc.prems(1) obtain current path depth rest where q0: "q0 = (current, path, depth) # rest"
    by (cases q0) (auto split: list.splits)
  from Suc.prems(1) q0 obtain st' where
    st: "bfs_step W target max_depth max_visited ((current, path, depth) # rest, V0, vc0, c0)
           = Some (Next st')"
    by (auto simp del: bfs_step.simps split: option.splits flow.splits)
  obtain q1 V1 vc1 c1 where st': "st' = (q1, V1, vc1, c1)" by (cases st')
  from Suc.prems(1) q0 st st' obtain taken1 where
    r: "bfs_rounds W target max_depth max_visited k (q1, V1, vc1, c1)
           = Some (taken1, (q, V, vc, c))" and t: "taken = current # taken1"
    by (auto simp del: bfs_step.simps split: option.splits)
  from bfs_step_queue[OF st[unfolded st']] obtain new where
    new: "q1 = rest @ map (\<lambda>n. (n, path @ [n], depth + 1)) new" "distinct new"
      "set new \<inter> V0 = {}" "V1 = V0 \<union> set new" "vc1 = vc0 + 1" by blast
  have m: "map fst q1 = map fst rest @ new"
    using new(1) by (simp add: comp_def)
  have d: "distinct ((taken0 @ [current]) @ map fst q1)"
    using Suc.prems(2,3) new(2,3) q0 unfolding m by auto
  have s: "set ((taken0 @ [current]) @ map fst q1) = V1"
    using Suc.prems(3) new(4) q0 unfolding m by auto
  from Suc.IH[OF r d s] show ?case
    using t new(5) by simp
qed

text \<open>
  Claim C6. Let the loop of \<^verbatim>\<open>find_path_bfs\<close> run for any number of rounds from its
  initial state, and list the titles taken from the queue so far followed by the titles
  still waiting in the queue. No title occurs twice in this list, and the titles of the
  list are exactly the visited set. So a title enters the visited set and the queue
  together and once only, and is taken from the queue (and expanded) at most once; the
  count of visited pages is the number of titles taken.
\<close>

theorem bfs_visits_once:
  assumes "bfs_rounds W target max_depth max_visited k ([(start, [start], 0)], {start}, 0, c)
             = Some (taken, (q, visited, visited_count, c'))"
  shows "distinct (taken @ map fst q) \<and> set (taken @ map fst q) = visited
         \<and> visited_count = length taken"
  using bfs_rounds_once[OF assms, of "[]"] by simp

lemma bfs_rounds_loop:
  "bfs_rounds W target max_depth max_visited k st = Some (taken, st')
    \<Longrightarrow> bfs_loop W target max_depth max_visited st = bfs_loop W target max_depth max_visited st'"
proof (induction k arbitrary: st taken)
  case 0
  then show ?case by simp
next
  case (Suc k)
  from Suc.prems obtain st1 taken1 where
    "bfs_step W target max_depth max_visited st = Some (Next st1)"
    "bfs_rounds W target max_depth max_visited k st1 = Some (taken1, st')"
    by (auto simp del: bfs_step.simps split: list.splits option.splits flow.splits)
  with Suc.IH show ?case
    by (subst bfs_loop.simps) simp
qed

theorem bfs_visits_once_witness:
  "map_option (\<lambda>(taken, q, visited, visited_count, c). (taken, map fst q, visited, visited_count))
     (bfs_rounds chain_world ''Z'' 6 100 2 ([(''A'', [''A''], 0)], {''A''}, 0, new_crawler))
     = Some ([''A'', ''B''], [''T''], {''A'', ''B'', ''T''}, 2)
   \<and> distinct ([''A'', ''B''] @ [''T''])
   \<and> set ([''A'', ''B''] @ [''T'']) = {''A'', ''B'', ''T''}"
proof -
  have e: "map_option (\<lambda>(taken, q, visited, visited_count, c). (taken, map fst q, visited, visited_count))
     (bfs_rounds chain_world ''Z'' 6 100 2 ([(''A'', [''A''], 0)], {''A''}, 0, new_crawler))
     = Some ([''A'', ''B''], [''T''], {''A'', ''B'', ''T''}, 2)"
    by code_simp
  then obtain taken q visited visited_count c' where
    r: "bfs_rounds chain_world ''Z'' 6 100 2 ([(''A'', [''A''], 0)], {''A''}, 0, new_crawler)
          = Some (taken, (q, visited, visited_count, c'))"
    and v: "taken = [''A'', ''B'']" "map fst q = [''T'']" "visited = {''A'', ''B'', ''T''}"
    by (cases "bfs_rounds chain_world ''Z'' 6 100 2 ([(''A'', [''A''], 0)], {''A''}, 0, new_crawler)")
       auto
  from bfs_visits_once[OF r] v
  have "distinct ([''A'', ''B''] @ [''T''])"
    and "set ([''A'', ''B''] @ [''T'']) = {''A'', ''B'', ''T''}"
    by simp_all
  with e show ?thesis by blast
qed

section \<open>The heuristic score and the order of expansion\<close>



lemma split_ws_tokens:
  "tk \<in> set (split_ws sp cur s) \<Longrightarrow> (\<forall>x \<in> set cur. \<not> sp x)
    \<Longrightarrow> tk \<noteq> [] \<and> (\<forall>x \<in> set tk. \<not> sp x)"
  by (induction sp cur s rule: split_ws.induct) (auto split: if_splits)




lemma fold_best_enqueue_heap:
  "fold (best_enqueue current path depth k) es (heap, V, uid, c) = (heap', V', uid', c')
    \<Longrightarrow> \<exists>added. heap' = heap @ added \<and> length added \<le> length es
          \<and> (\<forall>x \<in> set added. \<exists>sc n u. x = (- sc, depth + 1, u, n, path @ [n])
                 \<and> (sc, n) \<in> set es \<and> n \<notin> V)
          \<and> snd ` set es - V \<subseteq> item_title ` set added
          \<and> V' = V \<union> snd ` set es"
proof (induction es arbitrary: heap V uid c)
  case Nil
  then show ?case by simp
next
  case (Cons e es)
  obtain sc n where e: "e = (sc, n)" by (cases e)
  show ?case
  proof (cases "n \<in> V")
    case True
    with Cons.prems e
    have "fold (best_enqueue current path depth k) es (heap, V, uid, c) = (heap', V', uid', c')"
      by (simp add: best_enqueue_apply)
    from Cons.IH[OF this] obtain added where a: "heap' = heap @ added" "length added \<le> length es"
      "\<forall>x \<in> set added. \<exists>sc n u. x = (- sc, depth + 1, u, n, path @ [n])
                 \<and> (sc, n) \<in> set es \<and> n \<notin> V"
      "snd ` set es - V \<subseteq> item_title ` set added" "V' = V \<union> snd ` set es" by blast
    show ?thesis
    proof (intro exI[of _ added] conjI)
      show "heap' = heap @ added" by (rule a(1))
      show "length added \<le> length (e # es)" using a(2) by simp
      show "\<forall>x \<in> set added. \<exists>sc n u. x = (- sc, depth + 1, u, n, path @ [n])
                 \<and> (sc, n) \<in> set (e # es) \<and> n \<notin> V"
        using a(3) by fastforce
      show "snd ` set (e # es) - V \<subseteq> item_title ` set added"
        using a(4) True e by auto
      show "V' = V \<union> snd ` set (e # es)" using a(5) True e by auto
    qed
  next
    case False
    let ?x = "(- sc, depth + 1, uid + 1, n, path @ [n])"
    from False Cons.prems e obtain c1 where
      "fold (best_enqueue current path depth k) es (heap @ [?x], insert n V, uid + 1, c1)
         = (heap', V', uid', c')"
      by (simp add: best_enqueue_apply heappush_def)
    from Cons.IH[OF this] obtain added where a: "heap' = (heap @ [?x]) @ added"
      "length added \<le> length es"
      "\<forall>x \<in> set added. \<exists>sc n' u. x = (- sc, depth + 1, u, n', path @ [n'])
                 \<and> (sc, n') \<in> set es \<and> n' \<notin> insert n V"
      "snd ` set es - insert n V \<subseteq> item_title ` set added"
      "V' = insert n V \<union> snd ` set es" by blast
    show ?thesis
    proof (intro exI[of _ "?x # added"] conjI)
      show "heap' = heap @ ?x # added" using a(1) by simp
      show "length (?x # added) \<le> length (e # es)" using a(2) by simp
      show "\<forall>x \<in> set (?x # added). \<exists>sc n u. x = (- sc, depth + 1, u, n, path @ [n])
                 \<and> (sc, n) \<in> set (e # es) \<and> n \<notin> V"
      proof
        fix x assume "x \<in> set (?x # added)"
        then consider "x = ?x" | "x \<in> set added" by auto
        then show "\<exists>sc n u. x = (- sc, depth + 1, u, n, path @ [n])
                 \<and> (sc, n) \<in> set (e # es) \<and> n \<notin> V"
        proof cases
          case 1
          then show ?thesis using False e by auto
        next
          case 2
          with a(3) obtain sc' n' u' where "x = (- sc', depth + 1, u', n', path @ [n'])"
            "(sc', n') \<in> set es" "n' \<notin> insert n V" by blast
          then show ?thesis by auto
        qed
      qed
      have "item_title ?x = n" by (simp add: item_title_def)
      then show "snd ` set (e # es) - V \<subseteq> item_title ` set (?x # added)"
        using a(4) e by auto
      show "V' = V \<union> snd ` set (e # es)" using a(5) e by auto
    qed
  qed
qed

lemma set_slice_to: "set (slice_to k xs) \<subseteq> set xs"
  by (auto simp: slice_to_def dest: in_set_takeD)

lemma set_sort_scored [simp]: "set (sort_scored xs) = set xs"
  by (simp add: sort_scored_def)

lemma score_unvisited_set:
  "(sc, n) \<in> set (score_unvisited W target V ns)
     \<longleftrightarrow> n \<in> set ns - V \<and> sc = title_score W n target"
  by (auto simp: score_unvisited_def)

text \<open>
  What one expanding round of the best-first loop does to the heap: the item popped is
  gone and the items pushed for the chosen neighbours are appended.
\<close>

lemma best_step_pushes:
  assumes step: "best_step W target max_depth max_visited max_branch (heap, V, vc, uid, c)
             = Some (Next (heap1, V1, vc1, uid1, c1))"
    and ne: "heap \<noteq> []"
    and hp: "heappop heap = ((neg_score, depth, u, current, path), heap0)"
    and dp: "int depth < max_depth"
    and gl: "get_links W c current = Some (r, c2)"
  shows "\<exists>added. heap1 = heap0 @ added
          \<and> length added
              \<le> length (slice_to max_branch (sort_scored (score_unvisited W target V (caught r))))
          \<and> (\<forall>x \<in> set added. \<exists>sc n u. x = (- sc, depth + 1, u, n, path @ [n])
                 \<and> (sc, n) \<in> set (slice_to max_branch
                                     (sort_scored (score_unvisited W target V (caught r))))
                 \<and> n \<notin> V)
          \<and> snd ` set (slice_to max_branch (sort_scored (score_unvisited W target V (caught r))))
               \<subseteq> item_title ` set added"
proof -
  let ?scored = "score_unvisited W target V (caught r)"
  let ?top = "slice_to max_branch (sort_scored ?scored)"
  let ?c2 = "c2\<lparr>crawl_graph := record_links current (caught r) (crawl_graph c2)\<rparr>"
  have cap: "\<not> int (vc + 1) > max_visited"
    using step ne hp by (auto simp: Let_def split: if_splits)
  have nt: "target \<notin> set (caught r)"
    using step ne hp cap dp gl by (auto simp: Let_def split: if_splits)
  show ?thesis
  proof (cases "?scored = []")
    case True
    then have "?top = []" by (simp add: slice_to_def sort_scored_def)
    moreover have "heap1 = heap0"
      using step ne hp cap dp gl nt True by (auto simp: Let_def split: if_splits)
    ultimately show ?thesis by (intro exI[of _ "[]"]) simp
  next
    case False
    obtain h1 V1' u1 c3 where f: "fold (best_enqueue current path depth (length ?top)) ?top
        (heap0, V, uid, ?c2) = (h1, V1', u1, c3)" by (metis prod_cases4)
    have h: "heap1 = h1"
      using step ne hp cap dp gl nt False f by (auto simp: Let_def split: if_splits)
    have sub: "snd ` set ?top - V = snd ` set ?top"
      using set_slice_to[of max_branch "sort_scored ?scored"]
      by (auto simp: score_unvisited_set)
    from fold_best_enqueue_heap[OF f] obtain added where
      "h1 = heap0 @ added" "length added \<le> length ?top"
      "\<forall>x \<in> set added. \<exists>sc n u. x = (- sc, depth + 1, u, n, path @ [n])
                 \<and> (sc, n) \<in> set ?top \<and> n \<notin> V"
      "snd ` set ?top - V \<subseteq> item_title ` set added" by blast
    with h sub show ?thesis by (intro exI[of _ added]) simp
  qed
qed





lemma get_links_fan_A:
  "get_links fan_world new_crawler ''A''
     = Some (Inr [''B'', ''Tb'', ''C''],
             new_crawler\<lparr>requests := [Query_info ''A'', Query_links ''A'' None],
                          title_cache := [''A'' \<mapsto> ''A''],
                          link_cache := [''A'' \<mapsto> [''B'', ''Tb'', ''C'']]\<rparr>)"
  unfolding get_links_def fan_world_def resolve_title_table_A
  by (simp add: links_loop.simps send_def new_crawler_def table_world_def fan_out_def
      set_iter_def set_add_def Let_def)


section \<open>The branching cap of the best-first search\<close>

lemma sorted_take_drop:
  assumes "sorted (map f xs)" and "a \<in> set (take k xs)" and "b \<in> set (drop k xs)"
  shows "f a \<le> f b"
proof -
  have "sorted (map f (take k xs) @ map f (drop k xs))"
    using assms(1) by (metis append_take_drop_id map_append)
  then show ?thesis using assms(2,3) by (auto simp: sorted_append)
qed

lemma slice_to_nonneg:
  assumes "0 \<le> k"
  shows "slice_to k xs = take (nat k) xs" and "int (length (slice_to k xs)) \<le> k"
  using assms by (auto simp: slice_to_def)

text \<open>
  Claim C4, as stated, bounds the number of pushed neighbours by \<^verbatim>\<open>max_branch\<close> whatever
  its value. The command line accepts any integer for \<^verbatim>\<open>--max-branch\<close>, and with
  \<^verbatim>\<open>max_branch = -1\<close> the slice \<^verbatim>\<open>scored[:-1]\<close> drops only the last of the three
  neighbours of \<open>A\<close>: two items are pushed.
\<close>

theorem branch_cap_counterexample:
  "map_option (length \<circ> best_heap)
     (best_step fan_world ''T'' 6 100 (- 1) ([(0, 0, 0, ''A'', [''A''])], {''A''}, 0, 1, new_crawler))
     = Some 2
   \<and> (- 1 :: int) < int 2"
  by code_simp

text \<open>
  Claim C4, amended. Let \<^verbatim>\<open>max_branch\<close> be non-negative, and let a round of the
  best-first loop expand a node (its depth is below \<^verbatim>\<open>max_depth\<close>, its links are
  fetched, and the round hands over to the next one). Then the heap after the round is
  the heap after the pop followed by the items pushed; at most \<^verbatim>\<open>max_branch\<close> items
  are pushed; each is an unvisited neighbour with its heuristic score against the target;
  and every unvisited neighbour that is not pushed has a score no higher than that of any
  pushed one.
\<close>

theorem best_first_branch_cap:
  assumes step: "best_step W target max_depth max_visited max_branch (heap, V, vc, uid, c)
                   = Some (Next (heap1, V1, vc1, uid1, c1))"
    and ne: "heap \<noteq> []"
    and hp: "heappop heap = ((neg_score, depth, u, current, path), heap0)"
    and dp: "int depth < max_depth"
    and gl: "get_links W c current = Some (r, c2)"
    and mb: "0 \<le> max_branch"
  shows "\<exists>pushed. heap1 = heap0 @ pushed
          \<and> int (length pushed) \<le> max_branch
          \<and> (\<forall>x \<in> set pushed. item_title x \<in> set (caught r) - V
                 \<and> item_score x = title_score W (item_title x) target)
          \<and> (\<forall>m \<in> set (caught r) - V. m \<notin> item_title ` set pushed \<longrightarrow>
                 (\<forall>x \<in> set pushed. title_score W m target \<le> item_score x))"
proof -
  let ?scored = "score_unvisited W target V (caught r)"
  let ?sorted = "sort_scored ?scored"
  let ?top = "slice_to max_branch ?sorted"
  from best_step_pushes[OF step ne hp dp gl] obtain added where
    a: "heap1 = heap0 @ added" "length added \<le> length ?top"
    "\<forall>x \<in> set added. \<exists>sc n u. x = (- sc, depth + 1, u, n, path @ [n])
                 \<and> (sc, n) \<in> set ?top \<and> n \<notin> V"
    "snd ` set ?top \<subseteq> item_title ` set added" by blast
  have top: "?top = take (nat max_branch) ?sorted"
    using slice_to_nonneg(1)[OF mb] .
  have len: "int (length added) \<le> max_branch"
    using a(2) slice_to_nonneg(2)[OF mb, of ?sorted] by linarith
  have item: "item_title x \<in> set (caught r) - V
      \<and> item_score x = title_score W (item_title x) target
      \<and> (item_score x, item_title x) \<in> set ?top" if "x \<in> set added" for x
  proof -
    from a(3) that obtain sc n u' where x: "x = (- sc, depth + 1, u', n, path @ [n])"
      and t: "(sc, n) \<in> set ?top" by blast
    from t set_slice_to have "(sc, n) \<in> set ?scored" by fastforce
    then have "n \<in> set (caught r) - V" "sc = title_score W n target"
      by (simp_all add: score_unvisited_set)
    with x t show ?thesis by (simp add: item_score_def item_title_def)
  qed
  have best: "title_score W m target \<le> item_score x"
    if m: "m \<in> set (caught r) - V" "m \<notin> item_title ` set added" and x: "x \<in> set added" for m x
  proof -
    have "(title_score W m target, m) \<in> set ?sorted"
      using m(1) by (simp add: score_unvisited_set)
    moreover have "(title_score W m target, m) \<notin> set ?top"
      using m(2) a(4) by force
    ultimately have d: "(title_score W m target, m) \<in> set (drop (nat max_branch) ?sorted)"
      unfolding top by (metis Un_iff append_take_drop_id set_append)
    from item[OF x] have "(item_score x, item_title x) \<in> set ?top" by blast
    then have t: "(item_score x, item_title x) \<in> set (take (nat max_branch) ?sorted)"
      unfolding top .
    have "sorted (map (\<lambda>x. - fst x) ?sorted)"
      unfolding sort_scored_def by (rule sorted_sort_key)
    from sorted_take_drop[OF this t d] show ?thesis by simp
  qed
  show ?thesis
    using a(1) len item best by (intro exI[of _ added]) blast
qed

theorem best_first_branch_cap_witness:
  "map_option (map item_title \<circ> best_heap)
     (best_step fan_world ''T'' 6 100 1 ([(0, 0, 0, ''A'', [''A''])], {''A''}, 0, 1, new_crawler))
     = Some [''Tb'']
   \<and> title_score fan_world ''B'' ''T'' \<le> title_score fan_world ''Tb'' ''T''"
proof -
  let ?init = "[(0, 0, 0, ''A'', [''A''])] :: item list"
  let ?step = "best_step fan_world ''T'' 6 100 1 (?init, {''A''}, 0, 1, new_crawler)"
  let ?cA = "new_crawler\<lparr>requests := [Query_info ''A'', Query_links ''A'' None],
                          title_cache := [''A'' \<mapsto> ''A''],
                          link_cache := [''A'' \<mapsto> [''B'', ''Tb'', ''C'']]\<rparr>"
  have e: "map_option (map item_title \<circ> best_heap) ?step = Some [''Tb'']"
    by code_simp
  have n: "map_option (\<lambda>fl. case fl of Done r \<Rightarrow> False | Next st \<Rightarrow> True) ?step = Some True"
    by code_simp
  then obtain st where "?step = Some (Next st)"
    by (cases ?step) (auto split: flow.splits)
  then obtain heap1 V1 vc1 uid1 c1 where
    step: "?step = Some (Next (heap1, V1, vc1, uid1, c1))"
    by (cases st) auto
  have ne: "?init \<noteq> []" by simp
  have hp: "heappop ?init = ((0, 0, 0, ''A'', [''A'']), [])" by (simp add: heappop_def)
  have dp: "int 0 < 6" by simp
  have mb: "(0::int) \<le> 1" by simp
  from best_first_branch_cap[OF step ne hp dp get_links_fan_A mb]
  obtain pushed where p: "heap1 = [] @ pushed"
    "\<forall>x \<in> set pushed. item_title x \<in> set (caught (Inr [''B'', ''Tb'', ''C''])) - {''A''}
        \<and> item_score x = title_score fan_world (item_title x) ''T''"
    "\<forall>m \<in> set (caught (Inr [''B'', ''Tb'', ''C''])) - {''A''}.
        m \<notin> item_title ` set pushed \<longrightarrow>
        (\<forall>x \<in> set pushed. title_score fan_world m ''T'' \<le> item_score x)"
    by blast
  from e step p(1) have t: "map item_title pushed = [''Tb'']"
    by (simp del: best_step.simps)
  then obtain x where x: "pushed = [x]" "item_title x = ''Tb''"
    by (auto simp: map_eq_Cons_conv)
  from p(2) x have s: "item_score x = title_score fan_world ''Tb'' ''T''" by simp
  from p(3) x have "title_score fan_world ''B'' ''T'' \<le> item_score x" by simp
  with s e show ?thesis by simp
qed

section \<open>Breadth-first search returns a shortest path\<close>


lemma link_path_single [simp]: "link_path g s t [x] \<longleftrightarrow> x = s \<and> x = t"
  by (auto simp: link_path_def)



lemma near_mono: "j \<le> k \<Longrightarrow> near g start j \<subseteq> near g start k"
  by (auto simp: near_def intro: le_trans)

lemma near_0 [simp]: "near g start 0 = {}"
  by (auto simp: near_def link_path_def)

lemma near_1 [simp]: "near g start (Suc 0) = {start}"
proof -
  have "link_path g start v p \<and> length p \<le> Suc 0 \<longleftrightarrow> p = [start] \<and> v = start" for v p
    by (cases p) (auto simp: link_path_def)
  then show ?thesis by (auto simp: near_def)
qed



lemma start_in_near: "1 \<le> k \<Longrightarrow> start \<in> near g start k"
  using near_mono[of 1 k g start] by auto

lemma bfs_inv_Nil [simp]: "bfs_inv g start target max_depth [] V"
  by (simp add: bfs_inv_def)




















end
